theory Spec2Isabelle
  imports Main "HOL-Library.AList"
begin

section \<open>Python strings\<close>

text \<open>
  A Python \<open>str\<close> is modelled as a \<open>string\<close>, a list of characters, each
  character standing for a code point below 256. The whitespace that \<open>str.strip\<close>
  and \<open>str.lstrip\<close> remove is Python's \<open>str.isspace\<close> on that range: tab, line
  feed, vertical tab, form feed, carriage return, the four separators 0x1C..0x1F, the
  space, the next-line character 0x85 and the no-break space 0xA0.
\<close>

datatype py_error = IndexError | KeyError | OtherError string

definition is_space :: "char \<Rightarrow> bool" where
  "is_space c \<longleftrightarrow>
     c = CHR 0x09 \<or> c = CHR 0x0A \<or> c = CHR 0x0B \<or> c = CHR 0x0C \<or> c = CHR 0x0D \<or>
     c = CHR 0x1C \<or> c = CHR 0x1D \<or> c = CHR 0x1E \<or> c = CHR 0x1F \<or> c = CHR 0x20 \<or>
     c = CHR 0x85 \<or> c = CHR 0xA0"

definition py_lstrip :: "string \<Rightarrow> string" where
  "py_lstrip s = dropWhile is_space s"

definition py_rstrip :: "string \<Rightarrow> string" where
  "py_rstrip s = rev (dropWhile is_space (rev s))"

definition py_strip :: "string \<Rightarrow> string" where
  "py_strip s = py_rstrip (py_lstrip s)"

text \<open>\<open>proof.split("\n")\<close>: the pieces between line feeds; never the empty list.\<close>

fun split_lines :: "string \<Rightarrow> string list" where
  "split_lines [] = [[]]"
| "split_lines (c # cs) =
     (if c = CHR 0x0A then [] # split_lines cs
      else (case split_lines cs of
              [] \<Rightarrow> [[c]]
            | l # ls \<Rightarrow> (c # l) # ls))"

text \<open>\<open>"\n".join(xs)\<close>.\<close>

fun join_nl :: "string list \<Rightarrow> string" where
  "join_nl [] = []"
| "join_nl [x] = x"
| "join_nl (x # y # ys) = x @ CHR 0x0A # join_nl (y # ys)"

text \<open>\<open>len(line) - len(line.lstrip())\<close>.\<close>

definition indent_of :: "string \<Rightarrow> nat" where
  "indent_of line = length line - length (py_lstrip line)"

text \<open>\<open>line.endswith(";")\<close> and \<open>line[:-1]\<close>.\<close>

definition strip_terminator :: "string \<Rightarrow> string" where
  "strip_terminator line =
     (if line \<noteq> [] \<and> last line = CHR '';'' then butlast line else line)"

section \<open>The tactic splitter: \<open>LLMClient._split_proof\<close>\<close>

text \<open>
  The body of the \<open>for line in lines\<close> loop. \<open>tactics[-1] += ...\<close> on the empty
  list raises \<open>IndexError\<close>.
\<close>

definition remove_base :: "nat \<Rightarrow> string \<Rightarrow> string" where
  \<comment> \<open>\<open>line[base_indent:]\<close>, then the trailing \<open>;\<close> removed\<close>
  "remove_base base_indent line = strip_terminator (drop base_indent line)"

fun split_loop :: "nat \<Rightarrow> string list \<Rightarrow> string list \<Rightarrow> py_error + string list" where
  "split_loop base_indent [] tactics = Inr tactics"
| "split_loop base_indent (line # lines) tactics =
     (if py_strip line = [] then split_loop base_indent lines tactics
      else
        let line' = remove_base base_indent line in
        if indent_of line' = 0 then split_loop base_indent lines (tactics @ [line'])
        else if tactics = [] then Inl IndexError
        else split_loop base_indent lines
               (butlast tactics @ [last tactics @ CHR 0x0A # line']))"

text \<open>
  The part after the introducer has been dropped: \<open>lines[0]\<close> of the empty list
  raises \<open>IndexError\<close>.
\<close>

definition split_tactics :: "string list \<Rightarrow> py_error + string list" where
  "split_tactics lines =
     (case lines of
        [] \<Rightarrow> Inl IndexError
      | l # _ \<Rightarrow> split_loop (indent_of l) lines [])"

definition drop_introducer :: "string list \<Rightarrow> py_error + string list" where
  "drop_introducer lines =
     (case lines of
        [] \<Rightarrow> Inl IndexError
      | l # ls \<Rightarrow> Inr (if py_strip l = ''by'' then ls else lines))"

definition split_proof :: "string \<Rightarrow> py_error + string list" where
  "split_proof proof =
     (case drop_introducer (split_lines proof) of
        Inl e \<Rightarrow> Inl e
      | Inr lines \<Rightarrow> split_tactics lines)"

section \<open>The proof verifier: \<open>LLMClient._check_proof\<close>\<close>

text \<open>
  The checker session (\<open>sorrydb.repro.repl_api.LeanRepl\<close>) is an external
  process; \<open>send_command\<close> is taken as a parameter: a function from the session's
  state and a command to a reply and the next state. A reply is a JSON object; each key
  that the verifier reads is a field, \<open>None\<close> when the key is absent.
\<close>

datatype cmd = Cmd string | Tactic string nat

record message =
  severity :: string
  data :: string

record located =
  pos_line :: int
  pos_column :: int
  located_proofState :: nat

record reply =
  sorries :: "located list option"
  messages :: "message list option"
  proofState :: "nat option"
  goals :: "string list option"

type_synonym 'w repl = "'w \<Rightarrow> cmd \<Rightarrow> reply \<times> 'w"

text \<open>
  The \<open>for s in reply["sorries"]: ... break ... else: return None\<close> scan: the first
  entry at the given position.
\<close>

fun find_located :: "located list \<Rightarrow> int \<Rightarrow> int \<Rightarrow> located option" where
  "find_located [] line column = None"
| "find_located (s # ss) line column =
     (if pos_line s = line \<and> pos_column s = column then Some s
      else find_located ss line column)"

text \<open>\<open>reply.get("messages", [])\<close> holds a message of severity \<open>"error"\<close>.\<close>

definition has_error :: "reply \<Rightarrow> bool" where
  "has_error r =
     list_ex (\<lambda>m. severity m = ''error'')
       (case messages r of None \<Rightarrow> [] | Some ms \<Rightarrow> ms)"

text \<open>A reply on which the loop body returns \<open>None\<close>.\<close>

definition tactic_fails :: "reply \<Rightarrow> bool" where
  "tactic_fails r \<longleftrightarrow> has_error r \<or> proofState r = None"

text \<open>
  The \<open>for tactic in proof\<close> loop. Its result is \<open>None\<close> when the body returned
  \<open>None\<close>, and otherwise the loop variables \<open>proof_state\<close>, \<open>complete_proof\<close> and
  \<open>reply\<close> as they are after the last iteration. The last component records, in
  order, every command that was passed to \<open>send_command\<close>.
\<close>

fun check_tactics ::
  "'w repl \<Rightarrow> 'w \<Rightarrow> nat \<Rightarrow> string list \<Rightarrow> string list \<Rightarrow> reply \<Rightarrow> cmd list \<Rightarrow>
     (nat \<times> string list \<times> reply) option \<times> 'w \<times> cmd list" where
  "check_tactics send w proof_state [] complete_proof r sent =
     (Some (proof_state, complete_proof, r), w, sent)"
| "check_tactics send w proof_state (t # ts) complete_proof r sent =
     (case send w (Tactic t proof_state) of
        (r', w') \<Rightarrow>
          if has_error r' then (None, w', sent @ [Tactic t proof_state])
          else (case proofState r' of
                  None \<Rightarrow> (None, w', sent @ [Tactic t proof_state])
                | Some ps \<Rightarrow>
                    check_tactics send w' ps ts (complete_proof @ [t]) r'
                      (sent @ [Tactic t proof_state])))"

text \<open>
  \<open>_check_proof\<close>: \<open>Inr None\<close> is the return value \<open>None\<close>, \<open>Inr (Some p)\<close> the
  returned proof text, \<open>Inl KeyError\<close> a missing key in \<open>reply["sorries"]\<close> or
  \<open>reply["goals"]\<close>.
\<close>

definition check_proof ::
  "'w repl \<Rightarrow> 'w \<Rightarrow> string \<Rightarrow> int \<Rightarrow> int \<Rightarrow> string list \<Rightarrow>
     (py_error + string option) \<times> 'w \<times> cmd list" where
  "check_proof send w file_text line column proof =
     (case send w (Cmd file_text) of
        (r0, w0) \<Rightarrow>
          (case sorries r0 of
             None \<Rightarrow> (Inl KeyError, w0, [Cmd file_text])
           | Some ss \<Rightarrow>
               (case find_located ss line column of
                  None \<Rightarrow> (Inr None, w0, [Cmd file_text])
                | Some s \<Rightarrow>
                    (case check_tactics send w0 (located_proofState s) proof [] r0
                            [Cmd file_text] of
                       (None, w1, sent) \<Rightarrow> (Inr None, w1, sent)
                     | (Some (ps, complete_proof, r), w1, sent) \<Rightarrow>
                         (case goals r of
                            None \<Rightarrow> (Inl KeyError, w1, sent)
                          | Some gs \<Rightarrow>
                              (if gs = [] then Inr (Some (join_nl complete_proof))
                               else Inr None, w1, sent))))))"

text \<open>The tactic texts among the commands sent.\<close>

fun tactics_sent :: "cmd list \<Rightarrow> string list" where
  "tactics_sent [] = []"
| "tactics_sent (Cmd _ # cs) = tactics_sent cs"
| "tactics_sent (Tactic t _ # cs) = t # tactics_sent cs"

section \<open>The orchestrator: \<open>LLMClient.solve_sorry_db\<close>\<close>

text \<open>
  One entry of the database, with the keys that the client reads:
  \<open>uuid\<close>, \<open>goal.type\<close>, \<open>goal.parentType\<close>, \<open>location.file\<close>,
  \<open>location.startLine\<close> and \<open>location.startColumn\<close>.
\<close>

record sorry_config =
  uuid :: string
  goal_type :: string
  parentType :: string
  location_file :: string
  startLine :: int
  startColumn :: int

record commit =
  branch :: string
  sha :: string
  lean_version :: string
  commit_sorries :: "sorry_config list"

record repo =
  remote_url :: string
  commits :: "commit list"

text \<open>
  The arguments of \<open>PROMPT.format\<close>; the rendered prompt is a function of these four
  values, and the model of the generator takes them as they are.
\<close>

record prompt =
  prompt_goal :: string
  prompt_file_text :: string
  prompt_line :: int
  prompt_column :: int

text \<open>
  The reply of the language model: its text and
  \<open>response_metadata["usage"]\<close> (input and output tokens), \<open>None\<close> when that key is
  absent.
\<close>

record response =
  content :: string
  usage :: "(int \<times> int) option"

text \<open>
  The collaborators whose code is outside the client: the checker session, the language
  model (\<open>self.model.invoke\<close>, which may raise), reading a file of the prepared
  repository, and \<open>_setup_repo\<close> (cloning, building, starting the session). They act
  on a state of the outside world of type \<open>'w\<close>.
\<close>

record 'w collaborators =
  send_command :: "'w repl"
  model_invoke :: "'w \<Rightarrow> prompt \<Rightarrow> (py_error + response) \<times> 'w"
  read_text :: "'w \<Rightarrow> string \<Rightarrow> py_error + string"
  setup_repo :: "'w \<Rightarrow> string \<Rightarrow> string \<Rightarrow> string \<Rightarrow> string \<Rightarrow> py_error + 'w"

text \<open>
  The state of a run: the outside world, \<open>self.token_usage\<close>, the dictionary
  \<open>llm_proofs\<close> (in insertion order), the content of the file \<open>out_json\<close>
  (\<open>None\<close> while it has not been written), and two records of what the run did: the
  entries for which \<open>_solve_sorry\<close> was called (\<open>attempted\<close>) and those for which
  \<open>_invoke_model\<close> was called (\<open>generated\<close>).
\<close>

record 'w client =
  world :: 'w
  token_usage :: "int \<times> int"
  llm_proofs :: "(string \<times> string option) list"
  out_json :: "(string \<times> string option) list option"
  attempted :: "sorry_config list"
  generated :: "sorry_config list"

definition invoke_model ::
  "'w collaborators \<Rightarrow> 'w client \<Rightarrow> prompt \<Rightarrow> (py_error + string) \<times> 'w client" where
  "invoke_model env st p =
     (case model_invoke env (world st) p of
        (Inl e, w) \<Rightarrow> (Inl e, st\<lparr>world := w\<rparr>)
      | (Inr resp, w) \<Rightarrow>
          (case usage resp of
             None \<Rightarrow> (Inl KeyError, st\<lparr>world := w\<rparr>)
           | Some (input_tokens, output_tokens) \<Rightarrow>
               (Inr (content resp),
                st\<lparr>world := w,
                   token_usage := (fst (token_usage st) + input_tokens,
                                   snd (token_usage st) + output_tokens)\<rparr>)))"

definition render_prompt :: "sorry_config \<Rightarrow> string \<Rightarrow> prompt" where
  "render_prompt s file_text =
     \<lparr>prompt_goal = goal_type s, prompt_file_text = file_text,
      prompt_line = startLine s, prompt_column = startColumn s\<rparr>"

text \<open>\<open>_solve_sorry\<close>: an \<open>Inl\<close> result is an exception leaving the method.\<close>

definition solve_sorry ::
  "'w collaborators \<Rightarrow> 'w client \<Rightarrow> sorry_config \<Rightarrow>
     (py_error + string option) \<times> 'w client" where
  "solve_sorry env st s =
     (case read_text env (world st) (location_file s) of
        Inl e \<Rightarrow> (Inl e, st)
      | Inr file_text \<Rightarrow>
          (case invoke_model env (st\<lparr>generated := generated st @ [s]\<rparr>)
                  (render_prompt s file_text) of
             (Inl e, st1) \<Rightarrow> (Inl e, st1)
           | (Inr proof, st1) \<Rightarrow>
               (case split_proof proof of
                  Inl e \<Rightarrow> (Inl e, st1)
                | Inr tactics \<Rightarrow>
                    (case check_proof (send_command env) (world st1) file_text
                            (startLine s) (startColumn s) tactics of
                       (res, w, sent) \<Rightarrow> (res, st1\<lparr>world := w\<rparr>)))))"

text \<open>
  The inner loop over the list \<open>sorries\<close>: the result of \<open>_solve_sorry\<close> is
  stored under the entry's \<open>uuid\<close> and the dictionary is written to \<open>out_json\<close>.
  The first component is the exception that ended the loop, if any. The logging calls
  (among them the one that prints \<open>get_cost()\<close>) are left out.
\<close>

fun solve_sorries ::
  "'w collaborators \<Rightarrow> 'w client \<Rightarrow> sorry_config list \<Rightarrow> py_error option \<times> 'w client" where
  "solve_sorries env st [] = (None, st)"
| "solve_sorries env st (s # ss) =
     (case solve_sorry env (st\<lparr>attempted := attempted st @ [s]\<rparr>) s of
        (Inl e, st1) \<Rightarrow> (Some e, st1)
      | (Inr p, st1) \<Rightarrow>
          (let proofs = AList.update (uuid s) p (llm_proofs st1)
           in solve_sorries env (st1\<lparr>llm_proofs := proofs, out_json := Some proofs\<rparr>) ss))"

definition is_prop :: "sorry_config \<Rightarrow> bool" where
  "is_prop s \<longleftrightarrow> parentType s = ''Prop''"

text \<open>The loop \<open>for commit in repo["commits"]\<close>.\<close>

fun solve_commits ::
  "'w collaborators \<Rightarrow> 'w client \<Rightarrow> repo \<Rightarrow> commit list \<Rightarrow> py_error option \<times> 'w client" where
  "solve_commits env st r [] = (None, st)"
| "solve_commits env st r (c # cs) =
     (let todo = filter is_prop (commit_sorries c) in
      if todo = [] then solve_commits env st r cs
      else
        (case setup_repo env (world st) (remote_url r) (branch c) (sha c) (lean_version c) of
           Inl e \<Rightarrow> (Some e, st)
         | Inr w \<Rightarrow>
             (case solve_sorries env (st\<lparr>world := w\<rparr>) todo of
                (Some e, st1) \<Rightarrow> (Some e, st1)
              | (None, st1) \<Rightarrow> solve_commits env st1 r cs)))"

text \<open>The loop \<open>for i_repo, repo in enumerate(sorry_db["repos"])\<close>.\<close>

fun solve_repos ::
  "'w collaborators \<Rightarrow> 'w client \<Rightarrow> repo list \<Rightarrow> py_error option \<times> 'w client" where
  "solve_repos env st [] = (None, st)"
| "solve_repos env st (r # rs) =
     (case solve_commits env st r (commits r) of
        (Some e, st1) \<Rightarrow> (Some e, st1)
      | (None, st1) \<Rightarrow> solve_repos env st1 rs)"

text \<open>
  \<open>solve_sorry_db\<close> on the decoded database: \<open>llm_proofs = {}\<close>, then the loops.
  The two records of the run start empty.
\<close>

definition solve_sorry_db ::
  "'w collaborators \<Rightarrow> 'w client \<Rightarrow> repo list \<Rightarrow> py_error option \<times> 'w client" where
  "solve_sorry_db env st sorry_db =
     solve_repos env (st\<lparr>llm_proofs := [], attempted := [], generated := []\<rparr>) sorry_db"

text \<open>All entries of the database, and those the filter keeps, in the order of the loops.\<close>

definition all_sorries :: "repo list \<Rightarrow> sorry_config list" where
  "all_sorries sorry_db = concat (map (\<lambda>r. concat (map commit_sorries (commits r))) sorry_db)"

definition prop_sorries :: "repo list \<Rightarrow> sorry_config list" where
  "prop_sorries sorry_db = filter is_prop (all_sorries sorry_db)"

section \<open>Predicates used in the statements\<close>

text \<open>
  A tactic as the splitter builds it: a first line without indentation, followed by
  continuation lines that are indented.
\<close>

definition tactic_shape :: "string \<Rightarrow> bool" where
  "tactic_shape t =
     (case split_lines t of
        [] \<Rightarrow> False
      | f # cs \<Rightarrow> indent_of f = 0 \<and> list_all (\<lambda>c. indent_of c \<noteq> 0) cs)"

text \<open>
  The terminator-stripping normalisation of a tactic: one trailing \<open>;\<close> removed
  from each of its lines.
\<close>

definition norm_tactic :: "string \<Rightarrow> string" where
  "norm_tactic t = join_nl (map strip_terminator (split_lines t))"

text \<open>
  A tactic list without blank lines that does not start with the introducer.
\<close>

definition resplittable :: "string list \<Rightarrow> bool" where
  "resplittable ts \<longleftrightarrow>
     list_all (\<lambda>t. list_all (\<lambda>l. py_strip l \<noteq> []) (split_lines t)) ts \<and>
     (case ts of [] \<Rightarrow> True | t # _ \<Rightarrow> py_strip (hd (split_lines t)) \<noteq> ''by'')"

text \<open>
  What a run has touched lies within a set of entries: the entries attempted, those
  given to the generator, the keys of the dictionary, and the keys of the file if it
  was written.
\<close>

definition run_within ::
  "sorry_config set \<Rightarrow> (string \<times> string option) list option \<Rightarrow> 'w client \<Rightarrow> bool" where
  "run_within U file0 st \<longleftrightarrow>
     set (attempted st) \<subseteq> U \<and> set (generated st) \<subseteq> U \<and>
     fst ` set (llm_proofs st) \<subseteq> uuid ` U \<and>
     (out_json st = file0 \<or> (\<exists>m. out_json st = Some m \<and> fst ` set m \<subseteq> uuid ` U))"

section \<open>A session and a database for the examples\<close>

text \<open>
  A checker session that finds one unfinished proof, at line 3 and column 2 of any
  file. Its reply to a file has the keys \<open>sorries\<close> only; \<open>rfl\<close> closes the goal,
  \<open>intro x\<close> leaves one goal, every other tactic is answered with a message of
  severity \<open>error\<close>. The state counts the commands received.
\<close>

definition example_repl :: "nat repl" where
  "example_repl n c =
     (case c of
        Cmd _ \<Rightarrow>
          (\<lparr>sorries = Some [\<lparr>pos_line = 3, pos_column = 2, located_proofState = 0\<rparr>],
            messages = None, proofState = None, goals = None\<rparr>, Suc n)
      | Tactic t ps \<Rightarrow>
          (if t = ''rfl'' then
             \<lparr>sorries = None, messages = None, proofState = Some (Suc ps), goals = Some []\<rparr>
           else if t = ''intro x'' then
             \<lparr>sorries = None, messages = None, proofState = Some (Suc ps),
              goals = Some [''x : Nat |- p x'']\<rparr>
           else
             \<lparr>sorries = None,
              messages = Some [\<lparr>severity = ''error'', data = ''unknown tactic''\<rparr>],
              proofState = None, goals = None\<rparr>,
           Suc n))"

text \<open>
  A generator that answers \<open>rfl\<close> for the goal \<open>2 + 2 = 4\<close> and raises for every
  other goal, with a file system and a repository set-up that never fail.
\<close>

definition example_env :: "nat collaborators" where
  "example_env =
     \<lparr>send_command = example_repl,
      model_invoke = (\<lambda>w p.
        if prompt_goal p = ''2 + 2 = 4''
        then (Inr \<lparr>content = ''rfl'', usage = Some (120, 3)\<rparr>, Suc w)
        else (Inl (OtherError ''overloaded''), Suc w)),
      read_text = (\<lambda>w f. Inr ''example : 2 + 2 = 4 := by''),
      setup_repo = (\<lambda>w url b h v. Inr w)\<rparr>"

definition entry_easy :: sorry_config where
  "entry_easy = \<lparr>uuid = ''a1'', goal_type = ''2 + 2 = 4'', parentType = ''Prop'',
     location_file = ''Main.lean'', startLine = 3, startColumn = 2\<rparr>"

definition entry_data :: sorry_config where
  "entry_data = \<lparr>uuid = ''b2'', goal_type = ''Nat'', parentType = ''Type'',
     location_file = ''Main.lean'', startLine = 3, startColumn = 2\<rparr>"

definition entry_hard :: sorry_config where
  "entry_hard = \<lparr>uuid = ''c3'', goal_type = ''p = q'', parentType = ''Prop'',
     location_file = ''Main.lean'', startLine = 3, startColumn = 2\<rparr>"

definition entry_last :: sorry_config where
  "entry_last = \<lparr>uuid = ''d4'', goal_type = ''2 + 2 = 4'', parentType = ''Prop'',
     location_file = ''Main.lean'', startLine = 3, startColumn = 2\<rparr>"

definition example_commit :: commit where
  "example_commit = \<lparr>branch = ''main'', sha = ''0f3a'', lean_version = ''v4.16.0'',
     commit_sorries = [entry_easy, entry_data, entry_hard, entry_last]\<rparr>"

definition example_repo :: repo where
  "example_repo = \<lparr>remote_url = ''https://example.org/r.git'', commits = [example_commit]\<rparr>"

text \<open>
  A database in which an entry that is not a proposition carries the identifier of one
  that is.
\<close>

definition entry_twin :: sorry_config where
  "entry_twin = \<lparr>uuid = ''a1'', goal_type = ''Nat'', parentType = ''Type'',
     location_file = ''Main.lean'', startLine = 7, startColumn = 4\<rparr>"

definition twin_repo :: repo where
  "twin_repo = \<lparr>remote_url = ''https://example.org/r.git'',
     commits = [\<lparr>branch = ''main'', sha = ''0f3a'', lean_version = ''v4.16.0'',
                 commit_sorries = [entry_easy, entry_twin]\<rparr>]\<rparr>"

text \<open>The client as \<open>__init__\<close> leaves it, before any file has been written.\<close>

definition new_client :: "'w \<Rightarrow> 'w client" where
  "new_client w =
     \<lparr>world = w, token_usage = (0, 0), llm_proofs = [], out_json = None,
      attempted = [], generated = []\<rparr>"

section \<open>Lines and indentation\<close>

lemma split_lines_nonempty: "split_lines s \<noteq> []"
  by (induction s) (auto split: list.splits)

lemma split_lines_append_nl:
  "split_lines (a @ CHR 0x0A # b) = split_lines a @ split_lines b"
  by (induction a) (auto split: list.splits simp: split_lines_nonempty)

lemma split_lines_no_nl: "CHR 0x0A \<notin> set l \<Longrightarrow> split_lines l = [l]"
  by (induction l) auto

lemma split_lines_lines_no_nl: "l \<in> set (split_lines s) \<Longrightarrow> CHR 0x0A \<notin> set l"
  by (induction s arbitrary: l) (auto split: list.splits if_splits)

lemma join_nl_Cons: "ys \<noteq> [] \<Longrightarrow> join_nl (x # ys) = x @ CHR 0x0A # join_nl ys"
  by (cases ys) auto

lemma join_nl_Cons_char: "join_nl ((a # x) # xs) = a # join_nl (x # xs)"
  by (cases xs) auto

lemma join_nl_split_lines: "join_nl (split_lines s) = s"
  by (induction s) (auto split: list.splits simp: join_nl_Cons_char)

lemma join_nl_append:
  "xs \<noteq> [] \<Longrightarrow> ys \<noteq> [] \<Longrightarrow> join_nl (xs @ ys) = join_nl xs @ CHR 0x0A # join_nl ys"
  by (induction xs rule: join_nl.induct) (simp_all add: join_nl_Cons)

lemma split_lines_join_nl:
  "ts \<noteq> [] \<Longrightarrow> split_lines (join_nl ts) = concat (map split_lines ts)"
  by (induction ts rule: join_nl.induct) (simp_all add: split_lines_append_nl)

lemma indent_of_takeWhile: "indent_of l = length (takeWhile is_space l)"
proof -
  have "length l = length (takeWhile is_space l) + length (dropWhile is_space l)"
    by (metis length_append takeWhile_dropWhile_id)
  then show ?thesis by (simp add: indent_of_def py_lstrip_def)
qed

lemma indent_of_zero_iff: "indent_of l = 0 \<longleftrightarrow> l = [] \<or> \<not> is_space (hd l)"
  by (cases l) (simp_all add: indent_of_takeWhile)

lemma strip_terminator_hd_indent:
  "indent_of x = 0 \<Longrightarrow> indent_of (strip_terminator x) = 0"
proof (cases "strip_terminator x = []")
  case True
  then show ?thesis by (simp add: indent_of_zero_iff)
next
  case False
  assume z: "indent_of x = 0"
  from False have "hd (strip_terminator x) = hd x"
    by (cases x) (auto simp: strip_terminator_def split: if_splits)
  moreover from False have "x \<noteq> []" by (auto simp: strip_terminator_def)
  ultimately show ?thesis using z by (simp add: indent_of_zero_iff)
qed

lemma strip_terminator_keeps_indent:
  assumes "indent_of c \<noteq> 0"
  shows "indent_of (strip_terminator c) \<noteq> 0"
proof -
  from assms have ne: "c \<noteq> []" and sp: "is_space (hd c)"
    by (simp_all add: indent_of_zero_iff)
  have semi: "\<not> is_space CHR '';''" by (simp add: is_space_def)
  show ?thesis
  proof (cases "last c = CHR '';''")
    case False
    with assms show ?thesis by (simp add: strip_terminator_def)
  next
    case True
    with sp semi ne have "butlast c \<noteq> []"
      by (cases c) (auto split: if_splits)
    moreover from this have "hd (butlast c) = hd c" by (cases c) auto
    ultimately show ?thesis using True ne sp
      by (simp add: strip_terminator_def indent_of_zero_iff)
  qed
qed

lemma join_nl_snoc_merge:
  "join_nl (pre @ (a @ CHR 0x0A # l) # rest) = join_nl (pre @ a # l # rest)"
proof (cases "pre = []")
  case True
  then show ?thesis by (cases rest) simp_all
next
  case False
  have "join_nl ((a @ CHR 0x0A # l) # rest) = join_nl (a # l # rest)"
    by (cases rest) simp_all
  with False show ?thesis by (simp add: join_nl_append)
qed

lemma join_nl_merge_last:
  assumes "tactics \<noteq> []"
  shows "join_nl ((butlast tactics @ [last tactics @ CHR 0x0A # l]) @ rest)
           = join_nl ((tactics @ [l]) @ rest)"
proof -
  have "join_nl (butlast tactics @ (last tactics @ CHR 0x0A # l) # rest)
          = join_nl (butlast tactics @ last tactics # l # rest)"
    by (rule join_nl_snoc_merge)
  also have "butlast tactics @ last tactics # l # rest = (tactics @ [l]) @ rest"
    using assms by (metis append.assoc append_Cons append_Nil append_butlast_last_id)
  finally show ?thesis by simp
qed

lemma split_loop_join:
  "split_loop b lines tactics = Inr ts \<Longrightarrow>
     join_nl ts = join_nl (tactics @ map (remove_base b) (filter (\<lambda>x. py_strip x \<noteq> []) lines))"
proof (induction lines arbitrary: tactics)
  case Nil
  then show ?case by simp
next
  case (Cons line lines)
  show ?case
  proof (cases "py_strip line = []")
    case True
    with Cons show ?thesis by simp
  next
    case False
    note nb = False
    show ?thesis
    proof (cases "indent_of (remove_base b line) = 0")
      case True
      with nb Cons.prems have "split_loop b lines (tactics @ [remove_base b line]) = Inr ts"
        by (simp add: Let_def)
      from Cons.IH [OF this] nb show ?thesis by simp
    next
      case False
      with nb Cons.prems have ne: "tactics \<noteq> []"
        by (auto simp: Let_def split: if_splits)
      with False nb Cons.prems
      have "split_loop b lines (butlast tactics @ [last tactics @ CHR 0x0A # remove_base b line]) = Inr ts"
        by (simp add: Let_def)
      from Cons.IH [OF this] have "join_nl ts =
          join_nl ((butlast tactics @ [last tactics @ CHR 0x0A # remove_base b line]) @
                   map (remove_base b) (filter (\<lambda>x. py_strip x \<noteq> []) lines))" by simp
      also have "\<dots> = join_nl ((tactics @ [remove_base b line]) @
                   map (remove_base b) (filter (\<lambda>x. py_strip x \<noteq> []) lines))"
        by (rule join_nl_merge_last [OF ne])
      finally show ?thesis using nb by simp
    qed
  qed
qed

lemma split_tactics_join:
  "split_tactics (l # ls) = Inr ts \<Longrightarrow>
     join_nl ts = join_nl (map (remove_base (indent_of l)) (filter (\<lambda>x. py_strip x \<noteq> []) (l # ls)))"
  using split_loop_join [of "indent_of l" "l # ls" "[]" ts]
  by (simp add: split_tactics_def)

section \<open>The shape of the splitter's output\<close>

lemma remove_base_no_nl: "CHR 0x0A \<notin> set l \<Longrightarrow> CHR 0x0A \<notin> set (remove_base b l)"
  by (auto simp: remove_base_def strip_terminator_def dest: in_set_dropD in_set_butlastD)

lemma tactic_shape_single: "CHR 0x0A \<notin> set l \<Longrightarrow> indent_of l = 0 \<Longrightarrow> tactic_shape l"
  by (simp add: tactic_shape_def split_lines_no_nl)

lemma tactic_shape_extend:
  "tactic_shape t \<Longrightarrow> CHR 0x0A \<notin> set l \<Longrightarrow> indent_of l \<noteq> 0 \<Longrightarrow>
     tactic_shape (t @ CHR 0x0A # l)"
  by (auto simp: tactic_shape_def split_lines_append_nl split_lines_no_nl split: list.splits)

lemma split_loop_shape:
  "\<forall>l \<in> set lines. CHR 0x0A \<notin> set l \<Longrightarrow> \<forall>t \<in> set tactics. tactic_shape t \<Longrightarrow>
     split_loop b lines tactics = Inr ts \<Longrightarrow> \<forall>t \<in> set ts. tactic_shape t"
proof (induction lines arbitrary: tactics)
  case Nil
  then show ?case by simp
next
  case (Cons line lines)
  have nl: "CHR 0x0A \<notin> set (remove_base b line)"
    using Cons.prems(1) by (simp add: remove_base_no_nl)
  show ?case
  proof (cases "py_strip line = []")
    case True
    with Cons show ?thesis by simp
  next
    case False
    note nb = False
    show ?thesis
    proof (cases "indent_of (remove_base b line) = 0")
      case True
      with nb Cons.prems(3)
      have run: "split_loop b lines (tactics @ [remove_base b line]) = Inr ts"
        by (simp add: Let_def)
      have "\<forall>t \<in> set (tactics @ [remove_base b line]). tactic_shape t"
        using Cons.prems(2) nl True by (simp add: tactic_shape_single)
      with Cons.IH [OF _ _ run] Cons.prems(1) show ?thesis by simp
    next
      case False
      with nb Cons.prems(3) have ne: "tactics \<noteq> []"
        by (auto simp: Let_def split: if_splits)
      with False nb Cons.prems(3)
      have run: "split_loop b lines
                   (butlast tactics @ [last tactics @ CHR 0x0A # remove_base b line]) = Inr ts"
        by (simp add: Let_def)
      have "tactic_shape (last tactics)" using ne Cons.prems(2) by simp
      then have "tactic_shape (last tactics @ CHR 0x0A # remove_base b line)"
        using nl False by (rule tactic_shape_extend)
      moreover have "\<forall>t \<in> set (butlast tactics). tactic_shape t"
        using Cons.prems(2) by (auto dest: in_set_butlastD)
      ultimately have "\<forall>t \<in> set (butlast tactics @
                          [last tactics @ CHR 0x0A # remove_base b line]). tactic_shape t"
        by simp
      with Cons.IH [OF _ _ run] Cons.prems(1) show ?thesis by simp
    qed
  qed
qed

lemma split_proof_shape:
  assumes "split_proof text = Inr ts"
  shows "\<forall>t \<in> set ts. tactic_shape t"
proof -
  from assms obtain lines where d: "drop_introducer (split_lines text) = Inr lines"
    and t: "split_tactics lines = Inr ts"
    by (auto simp: split_proof_def split: sum.splits)
  from d have "set lines \<subseteq> set (split_lines text)"
    by (auto simp: drop_introducer_def split: list.splits if_splits)
  then have nl: "\<forall>l \<in> set lines. CHR 0x0A \<notin> set l"
    using split_lines_lines_no_nl by blast
  from t obtain l ls where "lines = l # ls"
    and "split_loop (indent_of l) lines [] = Inr ts"
    by (auto simp: split_tactics_def split: list.splits)
  with split_loop_shape [OF nl, of "[]" "indent_of l" ts] show ?thesis by simp
qed

lemma remove_base_zero: "remove_base 0 l = strip_terminator l"
  by (simp add: remove_base_def)

lemma split_loop_continuations:
  "list_all (\<lambda>l. py_strip l \<noteq> []) cs \<Longrightarrow> list_all (\<lambda>c. indent_of c \<noteq> 0) cs \<Longrightarrow>
     split_loop 0 (cs @ rest) (acc @ [t])
       = split_loop 0 rest (acc @ [join_nl (t # map strip_terminator cs)])"
proof (induction cs arbitrary: t)
  case Nil
  then show ?case by simp
next
  case (Cons c cs)
  let ?c = "strip_terminator c"
  have j: "join_nl ((t @ CHR 0x0A # ?c) # map strip_terminator cs)
             = join_nl (t # map strip_terminator (c # cs))"
    by (cases cs) simp_all
  from Cons.prems have nb: "py_strip c \<noteq> []" and ind: "indent_of ?c \<noteq> 0"
    by (simp_all add: strip_terminator_keeps_indent)
  then have "split_loop 0 ((c # cs) @ rest) (acc @ [t]) =
      split_loop 0 (cs @ rest) (acc @ [t @ CHR 0x0A # ?c])"
    by (simp add: Let_def remove_base_zero)
  also have "\<dots> = split_loop 0 rest
                     (acc @ [join_nl ((t @ CHR 0x0A # ?c) # map strip_terminator cs)])"
    using Cons.prems by (intro Cons.IH) simp_all
  finally show ?case by (simp only: j)
qed

lemma split_loop_one_tactic:
  assumes "tactic_shape t" and "list_all (\<lambda>l. py_strip l \<noteq> []) (split_lines t)"
  shows "split_loop 0 (split_lines t @ rest) acc = split_loop 0 rest (acc @ [norm_tactic t])"
proof -
  from assms(1) obtain f cs where fc: "split_lines t = f # cs" and f0: "indent_of f = 0"
    and cs: "list_all (\<lambda>c. indent_of c \<noteq> 0) cs"
    by (auto simp: tactic_shape_def split: list.splits)
  from assms(2) fc have pf: "py_strip f \<noteq> []"
    and pcs: "list_all (\<lambda>l. py_strip l \<noteq> []) cs" by simp_all
  from f0 have f0': "indent_of (strip_terminator f) = 0"
    by (rule strip_terminator_hd_indent)
  have "split_loop 0 (split_lines t @ rest) acc
          = split_loop 0 (cs @ rest) (acc @ [strip_terminator f])"
    using pf f0' by (simp add: fc Let_def remove_base_zero)
  also have "\<dots> = split_loop 0 rest
                     (acc @ [join_nl (strip_terminator f # map strip_terminator cs)])"
    by (rule split_loop_continuations [OF pcs cs])
  also have "join_nl (strip_terminator f # map strip_terminator cs) = norm_tactic t"
    by (simp add: norm_tactic_def fc)
  finally show ?thesis .
qed

lemma split_loop_rebuild:
  "list_all tactic_shape ts \<Longrightarrow>
   list_all (\<lambda>t. list_all (\<lambda>l. py_strip l \<noteq> []) (split_lines t)) ts \<Longrightarrow>
     split_loop 0 (concat (map split_lines ts) @ rest) acc
       = split_loop 0 rest (acc @ map norm_tactic ts)"
proof (induction ts arbitrary: acc)
  case Nil
  then show ?case by simp
next
  case (Cons t ts)
  have "split_loop 0 (concat (map split_lines (t # ts)) @ rest) acc =
          split_loop 0 (split_lines t @ (concat (map split_lines ts) @ rest)) acc"
    by simp
  also have "\<dots> = split_loop 0 (concat (map split_lines ts) @ rest) (acc @ [norm_tactic t])"
    using Cons.prems by (intro split_loop_one_tactic) simp_all
  also have "\<dots> = split_loop 0 rest ((acc @ [norm_tactic t]) @ map norm_tactic ts)"
    using Cons.prems by (intro Cons.IH) simp_all
  finally show ?case by simp
qed

lemma split_proof_join_normalises:
  assumes shape: "list_all tactic_shape ts" and ready: "resplittable ts"
  shows "split_proof (join_nl ts) = Inr (map norm_tactic ts)"
proof (cases ts)
  case Nil
  then show ?thesis
    by (simp add: split_proof_def drop_introducer_def split_tactics_def
        py_strip_def py_rstrip_def py_lstrip_def indent_of_def)
next
  case (Cons t ts')
  from ready have nb: "list_all (\<lambda>t. list_all (\<lambda>l. py_strip l \<noteq> []) (split_lines t)) ts"
    and nby: "py_strip (hd (split_lines t)) \<noteq> ''by''"
    by (simp_all add: resplittable_def Cons)
  from shape Cons obtain f cs where fc: "split_lines t = f # cs" and f0: "indent_of f = 0"
    by (auto simp: tactic_shape_def split: list.splits)
  have lines: "split_lines (join_nl ts) = f # (cs @ concat (map split_lines ts'))"
    using split_lines_join_nl [of ts] by (simp add: Cons fc)
  have all: "f # (cs @ concat (map split_lines ts')) = concat (map split_lines ts) @ []"
    by (simp add: Cons fc)
  have "split_proof (join_nl ts) = split_loop 0 (f # (cs @ concat (map split_lines ts'))) []"
    using nby f0 by (simp add: split_proof_def lines drop_introducer_def split_tactics_def fc)
  also have "\<dots> = split_loop 0 [] ([] @ map norm_tactic ts)"
    unfolding all by (rule split_loop_rebuild [OF shape nb])
  finally show ?thesis by simp
qed

section \<open>Properties of the splitter\<close>

text \<open>
  C10. The splitter is partial: on the single line \<open>by\<close> the introducer is dropped, no
  line is left and \<open>lines[0]\<close> raises \<open>IndexError\<close>; on the empty string it returns
  the empty list.
\<close>

theorem split_proof_partial:
  "split_proof ''by'' = Inl IndexError \<and> split_proof [] = Inr []"
  by (simp add: split_proof_def drop_introducer_def split_tactics_def
      py_strip_def py_rstrip_def py_lstrip_def is_space_def indent_of_def)

text \<open>
  C6. A continuation line before any tactic has been started is not skipped: for the
  reply of a generator that starts with a line feed and indents its proof,
  \<open>tactics[-1]\<close> is evaluated on the empty list and the splitter raises
  \<open>IndexError\<close>.
\<close>

theorem split_proof_leading_continuation:
  "split_proof ''\<newline>  simp'' = Inl IndexError"
  by (simp add: split_proof_def drop_introducer_def split_tactics_def remove_base_def
      py_strip_def py_rstrip_def py_lstrip_def is_space_def indent_of_def
      strip_terminator_def)

text \<open>
  C7, as stated, fails: the introducer is looked for in the first line only, so a
  \<open>by\<close> that follows an empty first line is kept as a tactic.
\<close>

theorem split_proof_introducer_counterexample:
  "split_proof ''\<newline>by\<newline>simp'' = Inr [''by'', ''simp'']"
  by (simp add: split_proof_def drop_introducer_def split_tactics_def remove_base_def
      py_strip_def py_rstrip_def py_lstrip_def is_space_def indent_of_def
      strip_terminator_def)

text \<open>
  C7, amended. If the first line of the input, stripped of surrounding whitespace, is
  \<open>by\<close>, that line is dropped: the result is the result of splitting the lines after
  it, and every line of every output tactic comes from one of those lines. In
  particular the input \<open>by / intro x / exact h x\<close> gives the two tactics
  \<open>intro x\<close> and \<open>exact h x\<close>.
\<close>

theorem split_proof_drops_introducer:
  "(split_lines proof = l # rest \<longrightarrow> py_strip l = ''by'' \<longrightarrow>
      split_proof proof = split_tactics rest \<and>
      (\<forall>ts. split_proof proof = Inr ts \<longrightarrow>
         join_nl ts = join_nl (map (remove_base (indent_of (hd rest)))
                                (filter (\<lambda>x. py_strip x \<noteq> []) rest)))) \<and>
   split_proof ''by\<newline>  intro x\<newline>  exact h x'' = Inr [''intro x'', ''exact h x'']"
proof (intro conjI impI allI)
  assume a: "split_lines proof = l # rest" "py_strip l = ''by''"
  then show eq: "split_proof proof = split_tactics rest"
    by (simp add: split_proof_def drop_introducer_def)
  fix ts
  assume "split_proof proof = Inr ts"
  with eq have r: "split_tactics rest = Inr ts" by simp
  then obtain x xs where rest: "rest = x # xs"
    by (cases rest) (simp_all add: split_tactics_def)
  from r show "join_nl ts = join_nl (map (remove_base (indent_of (hd rest)))
                                (filter (\<lambda>x. py_strip x \<noteq> []) rest))"
    unfolding rest by (simp add: split_tactics_join del: filter.simps)
next
  show "split_proof ''by\<newline>  intro x\<newline>  exact h x'' = Inr [''intro x'', ''exact h x'']"
    by (simp add: split_proof_def drop_introducer_def split_tactics_def remove_base_def
      py_strip_def py_rstrip_def py_lstrip_def is_space_def indent_of_def
      strip_terminator_def)
qed

theorem split_proof_drops_introducer_witness:
  "split_lines ''by\<newline>  intro x\<newline>  exact h x'' = ''by'' # [''  intro x'', ''  exact h x''] \<and>
   py_strip ''by'' = ''by'' \<and>
   split_proof ''by\<newline>  intro x\<newline>  exact h x'' = split_tactics [''  intro x'', ''  exact h x'']"
proof -
  have h1: "split_lines ''by\<newline>  intro x\<newline>  exact h x'' = ''by'' # [''  intro x'', ''  exact h x'']"
    by simp
  have h2: "py_strip ''by'' = ''by''"
    by (simp add: py_strip_def py_rstrip_def py_lstrip_def is_space_def)
  from split_proof_drops_introducer
    [of "''by\<newline>  intro x\<newline>  exact h x''" "''by''" "[''  intro x'', ''  exact h x'']"]
    h1 h2 show ?thesis by blast
qed

text \<open>
  C5. A line whose indentation is less than the base indentation is not left intact:
  \<open>line[base_indent:]\<close> cuts off its first characters, whitespace or not. With a
  first line indented by four, the line \<open>bcdefg\<close> becomes the tactic \<open>fg\<close>.
\<close>

theorem split_proof_shallow_line_truncated:
  "indent_of ''bcdefg'' < indent_of ''    a'' \<and>
   split_proof ''    a\<newline>bcdefg'' = Inr [''a'', ''fg'']"
  by (simp add: split_proof_def drop_introducer_def split_tactics_def remove_base_def
      py_strip_def py_rstrip_def py_lstrip_def is_space_def indent_of_def
      strip_terminator_def)

text \<open>
  C8, as stated, fails, and not because of a terminator: a \<open>by\<close> that was kept as
  the first tactic is dropped when the joined output is split again, and so is an
  output line that truncation has left empty.
\<close>

theorem split_proof_idempotence_counterexample:
  "split_proof ''by\<newline>by\<newline>simp'' = Inr [''by'', ''simp''] \<and>
   split_proof (join_nl [''by'', ''simp'']) = Inr [''simp''] \<and>
   split_proof ''  a\<newline>b'' = Inr [''a'', []] \<and>
   split_proof (join_nl [''a'', []]) = Inr [''a'']"
  by (simp add: split_proof_def drop_introducer_def split_tactics_def remove_base_def
      py_strip_def py_rstrip_def py_lstrip_def is_space_def indent_of_def
      strip_terminator_def)

text \<open>
  C8, amended. If the splitter returns a list in which no line of any tactic is blank
  and whose first line is not \<open>by\<close>, then splitting the newline-join of that list
  returns the same list up to the terminator-stripping normalisation: each tactic with
  one trailing \<open>;\<close> removed from each of its lines.
\<close>

theorem split_proof_idempotent:
  assumes "split_proof text = Inr ts" and "resplittable ts"
  shows "split_proof (join_nl ts) = Inr (map norm_tactic ts)"
proof -
  from split_proof_shape [OF assms(1)] have "list_all tactic_shape ts"
    by (simp add: list_all_iff)
  then show ?thesis using assms(2) by (rule split_proof_join_normalises)
qed

theorem split_proof_idempotent_witness:
  "split_proof ''  rw [foo,\<newline>    bar];;\<newline>  rfl'' = Inr [''rw [foo,\<newline>  bar];'', ''rfl''] \<and>
   resplittable [''rw [foo,\<newline>  bar];'', ''rfl''] \<and>
   map norm_tactic [''rw [foo,\<newline>  bar];'', ''rfl''] = [''rw [foo,\<newline>  bar]'', ''rfl''] \<and>
   split_proof (join_nl [''rw [foo,\<newline>  bar];'', ''rfl''])
     = Inr (map norm_tactic [''rw [foo,\<newline>  bar];'', ''rfl''])"
proof -
  have h1: "split_proof ''  rw [foo,\<newline>    bar];;\<newline>  rfl''
              = Inr [''rw [foo,\<newline>  bar];'', ''rfl'']"
    by (simp add: split_proof_def drop_introducer_def split_tactics_def remove_base_def
      py_strip_def py_rstrip_def py_lstrip_def is_space_def indent_of_def
      strip_terminator_def)
  have h2: "resplittable [''rw [foo,\<newline>  bar];'', ''rfl'']"
    by (simp add: resplittable_def
      py_strip_def py_rstrip_def py_lstrip_def is_space_def)
  have h3: "map norm_tactic [''rw [foo,\<newline>  bar];'', ''rfl'']
              = [''rw [foo,\<newline>  bar]'', ''rfl'']"
    by (simp add: norm_tactic_def strip_terminator_def)
  from split_proof_idempotent [OF h1 h2] h1 h2 h3 show ?thesis by blast
qed

section \<open>Facts for the examples\<close>

lemmas example_defs =
  example_repo_def example_commit_def entry_easy_def entry_data_def entry_hard_def
  entry_last_def example_env_def example_repl_def new_client_def

lemmas splitter_defs =
  split_proof_def drop_introducer_def split_tactics_def remove_base_def
  py_strip_def py_rstrip_def py_lstrip_def is_space_def indent_of_def strip_terminator_def

lemmas client_defs =
  solve_sorry_db_def solve_sorry_def invoke_model_def render_prompt_def is_prop_def
  check_proof_def has_error_def tactic_fails_def

section \<open>Properties of the verifier\<close>

lemma tactics_sent_append: "tactics_sent (xs @ ys) = tactics_sent xs @ tactics_sent ys"
  by (induction xs rule: tactics_sent.induct) simp_all

lemma check_tactics_append:
  "check_tactics send w ps pre c r sent = (Some (ps1, c1, r1), w1, sent1) \<Longrightarrow>
     check_tactics send w ps (pre @ rest) c r sent = check_tactics send w1 ps1 rest c1 r1 sent1"
proof (induction pre arbitrary: w ps c r sent)
  case Nil
  then show ?case by simp
next
  case (Cons t pre)
  obtain r' w' where s: "send w (Tactic t ps) = (r', w')" by (cases "send w (Tactic t ps)")
  from Cons.prems s obtain ps' where ok: "\<not> has_error r'" "proofState r' = Some ps'"
    and run: "check_tactics send w' ps' pre (c @ [t]) r' (sent @ [Tactic t ps])
                = (Some (ps1, c1, r1), w1, sent1)"
    by (auto split: if_splits option.splits)
  from Cons.IH [OF run] s ok show ?case by simp
qed

lemma check_tactics_success:
  "check_tactics send w ps pre c r sent = (Some (ps1, c1, r1), w1, sent1) \<Longrightarrow>
     c1 = c @ pre \<and> tactics_sent sent1 = tactics_sent sent @ pre \<and>
     length sent1 = length sent + length pre"
proof (induction pre arbitrary: w ps c r sent)
  case Nil
  then show ?case by simp
next
  case (Cons t pre)
  obtain r' w' where s: "send w (Tactic t ps) = (r', w')" by (cases "send w (Tactic t ps)")
  from Cons.prems s obtain ps' where ok: "\<not> has_error r'" "proofState r' = Some ps'"
    and run: "check_tactics send w' ps' pre (c @ [t]) r' (sent @ [Tactic t ps])
                = (Some (ps1, c1, r1), w1, sent1)"
    by (auto split: if_splits option.splits)
  from Cons.IH [OF run] show ?case by (simp add: tactics_sent_append)
qed

lemma check_tactics_failing:
  "send w (Tactic t ps) = (rk, w2) \<Longrightarrow> tactic_fails rk \<Longrightarrow>
     check_tactics send w ps (t # post) c r sent = (None, w2, sent @ [Tactic t ps])"
  by (auto simp: tactic_fails_def)

text \<open>
  C2. Let the obligation be located and the tactics before tactic \<open>t\<close> succeed. If the
  reply to \<open>t\<close> holds a message of severity \<open>error\<close>, or no proof state, the
  verifier returns \<open>None\<close> at once: the commands sent are the file, the tactics
  before \<open>t\<close> and \<open>t\<close> itself, whatever tactics follow \<open>t\<close> in the candidate.
\<close>

theorem check_proof_fail_fast:
  assumes "send w (Cmd file_text) = (r0, w0)"
    and "sorries r0 = Some ss"
    and "find_located ss line column = Some s"
    and "check_tactics send w0 (located_proofState s) pre [] r0 [Cmd file_text]
           = (Some (ps1, c1, r1), w1, sent1)"
    and "send w1 (Tactic t ps1) = (rk, w2)"
    and "tactic_fails rk"
  shows "check_proof send w file_text line column (pre @ t # post)
           = (Inr None, w2, sent1 @ [Tactic t ps1]) \<and>
         tactics_sent (sent1 @ [Tactic t ps1]) = pre @ [t] \<and>
         length (sent1 @ [Tactic t ps1]) = 1 + (length pre + 1)"
proof -
  have "check_tactics send w0 (located_proofState s) (pre @ t # post) [] r0 [Cmd file_text]
          = (None, w2, sent1 @ [Tactic t ps1])"
    using check_tactics_append [OF assms(4)]
      check_tactics_failing [of send w1 t ps1 rk w2, OF assms(5,6)] by simp
  then have "check_proof send w file_text line column (pre @ t # post)
           = (Inr None, w2, sent1 @ [Tactic t ps1])"
    using assms(1-3) by (simp add: check_proof_def)
  moreover from check_tactics_success [OF assms(4)]
  have "tactics_sent (sent1 @ [Tactic t ps1]) = pre @ [t]"
    and "length (sent1 @ [Tactic t ps1]) = 1 + (length pre + 1)"
    by (simp_all add: tactics_sent_append)
  ultimately show ?thesis by simp
qed

theorem check_proof_fail_fast_witness:
  "tactic_fails (fst (example_repl 2 (Tactic ''foo'' 1))) \<and>
   check_proof example_repl 0 ''ft'' 3 2 ([''intro x''] @ ''foo'' # [''rfl''])
     = (Inr None, 3, [Cmd ''ft'', Tactic ''intro x'' 0] @ [Tactic ''foo'' 1]) \<and>
   tactics_sent ([Cmd ''ft'', Tactic ''intro x'' 0] @ [Tactic ''foo'' 1])
     = [''intro x''] @ [''foo'']"
proof -
  let ?l = "\<lparr>pos_line = 3, pos_column = 2, located_proofState = 0\<rparr>"
  let ?r0 = "\<lparr>sorries = Some [?l], messages = None, proofState = None, goals = None\<rparr>"
  let ?r1 = "\<lparr>sorries = None, messages = None, proofState = Some (Suc 0),
              goals = Some [''x : Nat |- p x'']\<rparr>"
  let ?rk = "\<lparr>sorries = None,
              messages = Some [\<lparr>severity = ''error'', data = ''unknown tactic''\<rparr>],
              proofState = None, goals = None\<rparr>"
  have h1: "example_repl 0 (Cmd ''ft'') = (?r0, 1)" by (simp add: example_repl_def)
  have h2: "sorries ?r0 = Some [?l]" by simp
  have h3: "find_located [?l] 3 2 = Some ?l" by simp
  have h4: "check_tactics example_repl 1 (located_proofState ?l) [''intro x''] [] ?r0 [Cmd ''ft'']
              = (Some (1, [''intro x''], ?r1), 2, [Cmd ''ft'', Tactic ''intro x'' 0])"
    by (simp add: example_repl_def has_error_def)
  have h5: "example_repl 2 (Tactic ''foo'' 1) = (?rk, 3)" by (simp add: example_repl_def)
  have h6: "tactic_fails ?rk" by (simp add: tactic_fails_def)
  from check_proof_fail_fast [OF h1 h2 h3 h4 h5 h6, of "[''rfl'']"] h5 h6
  show ?thesis by simp
qed

text \<open>
  C3. Let the obligation be located, the tactics before the last tactic \<open>t\<close> of the
  candidate succeed, and the reply \<open>r1\<close> of the session to \<open>t\<close> be a success (no
  message of severity \<open>error\<close>, a new proof state). Then every tactic has been sent,
  and the verifier returns the newline-join of the whole candidate exactly when
  \<open>r1\<close> reports no goals; if goals remain it returns \<open>None\<close>. A candidate of one
  tactic after which no goal is left is returned as that tactic.
\<close>

theorem check_proof_terminal:
  assumes "send w (Cmd file_text) = (r0, w0)"
    and "sorries r0 = Some ss"
    and "find_located ss line column = Some s"
    and "check_tactics send w0 (located_proofState s) pre [] r0 [Cmd file_text]
           = (Some (ps1, c1, r'), w1, sent1)"
    and "send w1 (Tactic t ps1) = (r1, w2)"
    and "\<not> tactic_fails r1"
  shows "check_proof send w file_text line column (pre @ [t])
           = ((case goals r1 of
                 None \<Rightarrow> Inl KeyError
               | Some gs \<Rightarrow> if gs = [] then Inr (Some (join_nl (pre @ [t]))) else Inr None),
              w2, sent1 @ [Tactic t ps1]) \<and>
         tactics_sent (sent1 @ [Tactic t ps1]) = pre @ [t] \<and>
         (fst (check_proof send w file_text line column (pre @ [t]))
            = Inr (Some (join_nl (pre @ [t]))) \<longleftrightarrow> goals r1 = Some []) \<and>
         (\<forall>g gs. goals r1 = Some (g # gs) \<longrightarrow>
            fst (check_proof send w file_text line column (pre @ [t])) = Inr None) \<and>
         (pre = [] \<longrightarrow> goals r1 = Some [] \<longrightarrow>
            fst (check_proof send w file_text line column (pre @ [t])) = Inr (Some t))"
proof -
  from assms(6) obtain ps2 where ok: "\<not> has_error r1" "proofState r1 = Some ps2"
    by (auto simp: tactic_fails_def)
  from check_tactics_success [OF assms(4)]
  have c1: "c1 = pre" and ts: "tactics_sent sent1 = pre" by simp_all
  have "check_tactics send w0 (located_proofState s) (pre @ [t]) [] r0 [Cmd file_text]
          = check_tactics send w1 ps1 [t] c1 r' sent1"
    by (rule check_tactics_append [OF assms(4)])
  also have "\<dots> = (Some (ps2, pre @ [t], r1), w2, sent1 @ [Tactic t ps1])"
    using assms(5) ok by (simp add: c1)
  finally have run: "check_tactics send w0 (located_proofState s) (pre @ [t]) [] r0
                       [Cmd file_text]
                     = (Some (ps2, pre @ [t], r1), w2, sent1 @ [Tactic t ps1])" .
  have res: "check_proof send w file_text line column (pre @ [t])
           = ((case goals r1 of
                 None \<Rightarrow> Inl KeyError
               | Some gs \<Rightarrow> if gs = [] then Inr (Some (join_nl (pre @ [t]))) else Inr None),
              w2, sent1 @ [Tactic t ps1])"
    using assms(1-3) run by (simp add: check_proof_def split: option.splits)
  have sent: "tactics_sent (sent1 @ [Tactic t ps1]) = pre @ [t]"
    by (simp add: tactics_sent_append ts)
  from res sent show ?thesis by (auto split: option.splits)
qed

theorem check_proof_terminal_witness:
  "\<not> tactic_fails (fst (example_repl 1 (Tactic ''rfl'' 0))) \<and>
   goals (fst (example_repl 1 (Tactic ''rfl'' 0))) = Some [] \<and>
   fst (check_proof example_repl 0 ''ft'' 3 2 ([] @ [''rfl''])) = Inr (Some ''rfl'') \<and>
   check_proof example_repl 0 ''ft'' 3 2 ([''intro x''] @ [''rfl''])
     = (Inr (Some ''intro x\<newline>rfl''), 3,
        [Cmd ''ft'', Tactic ''intro x'' 0] @ [Tactic ''rfl'' 1])"
proof -
  let ?l = "\<lparr>pos_line = 3, pos_column = 2, located_proofState = 0\<rparr>"
  let ?r0 = "\<lparr>sorries = Some [?l], messages = None, proofState = None, goals = None\<rparr>"
  let ?ri = "\<lparr>sorries = None, messages = None, proofState = Some (Suc 0),
              goals = Some [''x : Nat |- p x'']\<rparr>"
  let ?r1 = "\<lparr>sorries = None, messages = None, proofState = Some (Suc 0), goals = Some []\<rparr>"
  let ?r2 = "\<lparr>sorries = None, messages = None, proofState = Some (Suc 1), goals = Some []\<rparr>"
  have h1: "example_repl 0 (Cmd ''ft'') = (?r0, 1)" by (simp add: example_repl_def)
  have h2: "sorries ?r0 = Some [?l]" by simp
  have h3: "find_located [?l] 3 2 = Some ?l" by simp
  have h4: "check_tactics example_repl 1 (located_proofState ?l) [] [] ?r0 [Cmd ''ft'']
              = (Some (0, [], ?r0), 1, [Cmd ''ft''])"
    by simp
  have h5: "example_repl 1 (Tactic ''rfl'' 0) = (?r1, 2)" by (simp add: example_repl_def)
  have h6: "\<not> tactic_fails ?r1" by (simp add: tactic_fails_def has_error_def)
  have g: "goals ?r1 = Some []" by simp
  have k4: "check_tactics example_repl 1 (located_proofState ?l) [''intro x''] [] ?r0
              [Cmd ''ft'']
              = (Some (1, [''intro x''], ?ri), 2, [Cmd ''ft'', Tactic ''intro x'' 0])"
    by (simp add: example_repl_def has_error_def)
  have k5: "example_repl 2 (Tactic ''rfl'' 1) = (?r2, 3)" by (simp add: example_repl_def)
  have k6: "\<not> tactic_fails ?r2" by (simp add: tactic_fails_def has_error_def)
  from check_proof_terminal [OF h1 h2 h3 h4 h5 h6] g
  have one: "fst (check_proof example_repl 0 ''ft'' 3 2 ([] @ [''rfl''])) = Inr (Some ''rfl'')"
    by blast
  from check_proof_terminal [OF h1 h2 h3 k4 k5 k6]
  have two: "check_proof example_repl 0 ''ft'' 3 2 ([''intro x''] @ [''rfl''])
     = (Inr (Some ''intro x\<newline>rfl''), 3,
        [Cmd ''ft'', Tactic ''intro x'' 0] @ [Tactic ''rfl'' 1])"
    by simp
  from one two h5 h6 g show ?thesis by simp
qed

text \<open>
  C4. A candidate without tactics is not rejected: the loop body never runs, \<open>reply\<close>
  is still the reply to the file, and \<open>reply["goals"]\<close> raises \<open>KeyError\<close> on a
  reply that has no such key. The splitter returns this empty candidate on the empty
  string.
\<close>

theorem check_proof_empty_candidate:
  "split_proof [] = Inr [] \<and>
   check_proof example_repl 0 ''example : 2 + 2 = 4 := by'' 3 2 []
     = (Inl KeyError, 1, [Cmd ''example : 2 + 2 = 4 := by''])"
  by (simp add: splitter_defs check_proof_def example_repl_def)

section \<open>Properties of the orchestrator\<close>

lemma solve_sorries_append:
  "solve_sorries env st (xs @ ys) =
     (case solve_sorries env st xs of
        (Some e, st1) \<Rightarrow> (Some e, st1)
      | (None, st1) \<Rightarrow> solve_sorries env st1 ys)"
  by (induction xs arbitrary: st) (simp_all add: Let_def split: prod.splits sum.splits)

lemma solve_commits_append:
  "solve_commits env st r (xs @ ys) =
     (case solve_commits env st r xs of
        (Some e, st1) \<Rightarrow> (Some e, st1)
      | (None, st1) \<Rightarrow> solve_commits env st1 r ys)"
  by (induction xs arbitrary: st)
     (simp_all add: Let_def split: prod.splits sum.splits option.splits)

lemma solve_repos_append:
  "solve_repos env st (xs @ ys) =
     (case solve_repos env st xs of
        (Some e, st1) \<Rightarrow> (Some e, st1)
      | (None, st1) \<Rightarrow> solve_repos env st1 ys)"
  by (induction xs arbitrary: st) (simp_all split: prod.splits option.splits)

lemma solve_sorry_generator_raises:
  assumes "read_text env (world st) (location_file s) = Inr file_text"
    and "model_invoke env (world st) (render_prompt s file_text) = (Inl e, w)"
  shows "solve_sorry env st s = (Inl e, st\<lparr>world := w, generated := generated st @ [s]\<rparr>)"
  using assms by (simp add: solve_sorry_def invoke_model_def)

text \<open>
  C1, as stated, fails: with a generator that raises on the second of three
  obligations to attempt, the run ends with the generator's error; the file holds the
  first result only, and the third obligation is never attempted.
\<close>

theorem generator_failure_counterexample:
  "fst (solve_sorry_db example_env (new_client 0) [example_repo])
     = Some (OtherError ''overloaded'') \<and>
   out_json (snd (solve_sorry_db example_env (new_client 0) [example_repo]))
     = Some [(''a1'', Some ''rfl'')] \<and>
   attempted (snd (solve_sorry_db example_env (new_client 0) [example_repo]))
     = [entry_easy, entry_hard]"
  by (simp add: example_defs client_defs splitter_defs Let_def)

text \<open>
  C1, amended. If the generator raises on an obligation, the exception leaves
  \<open>solve_sorry_db\<close>: the run ends with that error in the state reached before the
  obligation, so the obligation has no entry in the result dictionary, the file holds
  the results of the obligations completed before it, and no later obligation,
  commit or repository is processed.
\<close>

theorem generator_failure_aborts:
  assumes "solve_repos env (st\<lparr>llm_proofs := [], attempted := [], generated := []\<rparr>) rpre
             = (None, sa)"
    and "commits r = cpre @ c # cpost"
    and "solve_commits env sa r cpre = (None, sb)"
    and "filter is_prop (commit_sorries c) = pre @ s # post"
    and "setup_repo env (world sb) (remote_url r) (branch c) (sha c) (lean_version c) = Inr w1"
    and "solve_sorries env (sb\<lparr>world := w1\<rparr>) pre = (None, sc)"
    and "read_text env (world sc) (location_file s) = Inr file_text"
    and "model_invoke env (world sc) (render_prompt s file_text) = (Inl e, w2)"
  shows "solve_sorry_db env st (rpre @ r # rpost)
           = (Some e, sc\<lparr>world := w2, attempted := attempted sc @ [s],
                          generated := generated sc @ [s]\<rparr>)"
proof -
  let ?final = "sc\<lparr>world := w2, attempted := attempted sc @ [s],
                    generated := generated sc @ [s]\<rparr>"
  have "solve_sorry env (sc\<lparr>attempted := attempted sc @ [s]\<rparr>) s = (Inl e, ?final)"
    using solve_sorry_generator_raises
      [of env "sc\<lparr>attempted := attempted sc @ [s]\<rparr>" s file_text e w2] assms(7,8)
    by simp
  then have "solve_sorries env sc (s # post) = (Some e, ?final)" by simp
  with assms(6) have "solve_sorries env (sb\<lparr>world := w1\<rparr>) (pre @ s # post) = (Some e, ?final)"
    by (simp add: solve_sorries_append)
  with assms(4,5) have "solve_commits env sb r (c # cpost) = (Some e, ?final)"
    by simp
  with assms(3) have "solve_commits env sa r (cpre @ c # cpost) = (Some e, ?final)"
    by (simp add: solve_commits_append)
  with assms(2) have "solve_repos env sa (r # rpost) = (Some e, ?final)" by simp
  with assms(1) show ?thesis
    by (simp add: solve_sorry_db_def solve_repos_append)
qed

theorem generator_failure_aborts_witness:
  "solve_sorry_db example_env (new_client 0) ([] @ example_repo # []) =
     (Some (OtherError ''overloaded''),
      \<lparr>world = 4, token_usage = (120, 3), llm_proofs = [(''a1'', Some ''rfl'')],
       out_json = Some [(''a1'', Some ''rfl'')],
       attempted = [entry_easy] @ [entry_hard], generated = [entry_easy] @ [entry_hard]\<rparr>)"
proof -
  let ?sc = "\<lparr>world = 3, token_usage = (120, 3), llm_proofs = [(''a1'', Some ''rfl'')],
              out_json = Some [(''a1'', Some ''rfl'')],
              attempted = [entry_easy], generated = [entry_easy]\<rparr> :: nat client"
  have h1: "solve_repos example_env
              ((new_client 0)\<lparr>llm_proofs := [], attempted := [], generated := []\<rparr>) []
              = (None, new_client 0)"
    by (simp add: new_client_def)
  have h2: "commits example_repo = [] @ example_commit # []"
    by (simp add: example_repo_def)
  have h3: "solve_commits example_env (new_client 0) example_repo [] = (None, new_client 0)"
    by simp
  have h4: "filter is_prop (commit_sorries example_commit)
              = [entry_easy] @ entry_hard # [entry_last]"
    by (simp add: example_defs is_prop_def)
  have h5: "setup_repo example_env (world (new_client 0)) (remote_url example_repo)
              (branch example_commit) (sha example_commit) (lean_version example_commit) = Inr 0"
    by (simp add: example_env_def new_client_def)
  have h6: "solve_sorries example_env ((new_client 0)\<lparr>world := 0\<rparr>) [entry_easy] = (None, ?sc)"
    by (simp add: example_defs client_defs splitter_defs Let_def)
  have h7: "read_text example_env (world ?sc) (location_file entry_hard)
              = Inr ''example : 2 + 2 = 4 := by''"
    by (simp add: example_env_def)
  have h8: "model_invoke example_env (world ?sc)
              (render_prompt entry_hard ''example : 2 + 2 = 4 := by'')
              = (Inl (OtherError ''overloaded''), 4)"
    by (simp add: example_env_def render_prompt_def entry_hard_def)
  from generator_failure_aborts [OF h1 h2 h3 h4 h5 h6 h7 h8, of "[]"]
  show ?thesis by simp
qed

lemma solve_sorry_fields:
  assumes "solve_sorry env st s = (res, st')"
  shows "attempted st' = attempted st \<and> llm_proofs st' = llm_proofs st \<and>
         out_json st' = out_json st \<and>
         (generated st' = generated st \<or> generated st' = generated st @ [s])"
  using assms
  by (auto simp: solve_sorry_def invoke_model_def
      split: sum.splits prod.splits option.splits)

lemma solve_sorry_within:
  assumes "run_within U file0 st" and "s \<in> U" and "solve_sorry env st s = (res, st')"
  shows "run_within U file0 st'"
  using solve_sorry_fields [OF assms(3)] assms(1,2)
  by (auto simp: run_within_def)

lemma run_within_attempt:
  "run_within U file0 st \<Longrightarrow> s \<in> U \<Longrightarrow>
     run_within U file0 (st\<lparr>attempted := attempted st @ [s]\<rparr>)"
  by (simp add: run_within_def)

lemma run_within_store:
  assumes "run_within U file0 st" and "s \<in> U"
  shows "run_within U file0
           (st\<lparr>llm_proofs := AList.update (uuid s) p (llm_proofs st),
               out_json := Some (AList.update (uuid s) p (llm_proofs st))\<rparr>)"
  using assms by (auto simp: run_within_def dom_update)

lemma solve_sorries_within:
  "set ss \<subseteq> U \<Longrightarrow> run_within U file0 st \<Longrightarrow> solve_sorries env st ss = (err, st') \<Longrightarrow>
     run_within U file0 st'"
proof (induction ss arbitrary: st)
  case Nil
  then show ?case by simp
next
  case (Cons s ss)
  from Cons.prems(1) have sU: "s \<in> U" and ssU: "set ss \<subseteq> U" by simp_all
  obtain res st1 where r: "solve_sorry env (st\<lparr>attempted := attempted st @ [s]\<rparr>) s = (res, st1)"
    by (cases "solve_sorry env (st\<lparr>attempted := attempted st @ [s]\<rparr>) s")
  have w1: "run_within U file0 st1"
    using solve_sorry_within [OF run_within_attempt [OF Cons.prems(2) sU] sU r] .
  show ?case
  proof (cases res)
    case (Inl e)
    with Cons.prems(3) r have "st' = st1" by simp
    with w1 show ?thesis by simp
  next
    case (Inr p)
    with Cons.prems(3) r have
      "solve_sorries env
         (st1\<lparr>llm_proofs := AList.update (uuid s) p (llm_proofs st1),
              out_json := Some (AList.update (uuid s) p (llm_proofs st1))\<rparr>) ss = (err, st')"
      by (simp add: Let_def)
    from Cons.IH [OF ssU run_within_store [OF w1 sU] this] show ?thesis .
  qed
qed

lemma run_within_world: "run_within U file0 st \<Longrightarrow> run_within U file0 (st\<lparr>world := w\<rparr>)"
  by (simp add: run_within_def)

lemma solve_commits_within:
  "\<forall>c \<in> set cs. set (filter is_prop (commit_sorries c)) \<subseteq> U \<Longrightarrow> run_within U file0 st \<Longrightarrow>
     solve_commits env st r cs = (err, st') \<Longrightarrow> run_within U file0 st'"
proof (induction cs arbitrary: st)
  case Nil
  then show ?case by simp
next
  case (Cons c cs)
  let ?todo = "filter is_prop (commit_sorries c)"
  from Cons.prems(1) have cU: "set ?todo \<subseteq> U"
    and csU: "\<forall>c \<in> set cs. set (filter is_prop (commit_sorries c)) \<subseteq> U" by simp_all
  show ?case
  proof (cases "?todo = []")
    case True
    with Cons.prems(3) have "solve_commits env st r cs = (err, st')" by simp
    from Cons.IH [OF csU Cons.prems(2) this] show ?thesis .
  next
    case False
    note todo = False
    show ?thesis
    proof (cases "setup_repo env (world st) (remote_url r) (branch c) (sha c) (lean_version c)")
      case (Inl e)
      with todo Cons.prems(3) have "st' = st" by simp
      with Cons.prems(2) show ?thesis by simp
    next
      case (Inr w)
      obtain e1 st1 where r1: "solve_sorries env (st\<lparr>world := w\<rparr>) ?todo = (e1, st1)"
        by (cases "solve_sorries env (st\<lparr>world := w\<rparr>) ?todo")
      have w1: "run_within U file0 st1"
        using solve_sorries_within [OF cU run_within_world [OF Cons.prems(2)] r1] .
      show ?thesis
      proof (cases e1)
        case None
        with todo Inr r1 Cons.prems(3) have "solve_commits env st1 r cs = (err, st')" by simp
        from Cons.IH [OF csU w1 this] show ?thesis .
      next
        case (Some e)
        with todo Inr r1 Cons.prems(3) have "st' = st1" by simp
        with w1 show ?thesis by simp
      qed
    qed
  qed
qed

lemma solve_repos_within:
  "\<forall>r \<in> set rs. \<forall>c \<in> set (commits r). set (filter is_prop (commit_sorries c)) \<subseteq> U \<Longrightarrow>
     run_within U file0 st \<Longrightarrow> solve_repos env st rs = (err, st') \<Longrightarrow> run_within U file0 st'"
proof (induction rs arbitrary: st)
  case Nil
  then show ?case by simp
next
  case (Cons r rs)
  obtain e1 st1 where r1: "solve_commits env st r (commits r) = (e1, st1)"
    by (cases "solve_commits env st r (commits r)")
  from Cons.prems(1) have "\<forall>c \<in> set (commits r). set (filter is_prop (commit_sorries c)) \<subseteq> U"
    by simp
  from solve_commits_within [OF this Cons.prems(2) r1] have w1: "run_within U file0 st1" .
  show ?case
  proof (cases e1)
    case None
    with r1 Cons.prems(3) have "solve_repos env st1 rs = (err, st')" by simp
    moreover from Cons.prems(1)
    have "\<forall>r \<in> set rs. \<forall>c \<in> set (commits r). set (filter is_prop (commit_sorries c)) \<subseteq> U"
      by simp
    ultimately show ?thesis using w1 Cons.IH by blast
  next
    case (Some e)
    with r1 Cons.prems(3) have "st' = st1" by simp
    with w1 show ?thesis by simp
  qed
qed

lemma prop_sorries_covers:
  "\<forall>r \<in> set db. \<forall>c \<in> set (commits r).
     set (filter is_prop (commit_sorries c)) \<subseteq> set (prop_sorries db)"
  by (auto simp: prop_sorries_def all_sorries_def)

lemma solve_sorry_db_within:
  assumes "solve_sorry_db env st db = (err, st')"
  shows "run_within (set (prop_sorries db)) (out_json st) st'"
proof -
  have "run_within (set (prop_sorries db)) (out_json st)
          (st\<lparr>llm_proofs := [], attempted := [], generated := []\<rparr>)"
    by (simp add: run_within_def)
  from solve_repos_within [OF prop_sorries_covers this] assms show ?thesis
    by (simp add: solve_sorry_db_def)
qed

text \<open>
  C9, as stated, fails where it says that the file has no entry under the identifier of
  an entry that is not a proposition: results are stored under the \<open>uuid\<close> alone, so
  such an entry that shares its identifier with a \<open>Prop\<close> entry finds that entry's
  result under its own identifier.
\<close>

theorem solve_sorry_db_shared_uuid_counterexample:
  "parentType entry_twin \<noteq> ''Prop'' \<and> uuid entry_twin = ''a1'' \<and>
   fst (solve_sorry_db example_env (new_client 0) [twin_repo]) = None \<and>
   out_json (snd (solve_sorry_db example_env (new_client 0) [twin_repo]))
     = Some [(''a1'', Some ''rfl'')]"
  by (simp add: example_defs entry_twin_def twin_repo_def client_defs splitter_defs Let_def)

text \<open>
  C9, amended. Whatever the outcome of a run, an entry whose \<open>parentType\<close> is not
  \<open>Prop\<close> is neither attempted nor given to the generator, and, unless a \<open>Prop\<close>
  entry of the database carries the same identifier, neither the result dictionary nor
  the file written by the run has an entry under its identifier. The entries attempted
  are \<open>Prop\<close> entries of the database.
\<close>

theorem solve_sorry_db_only_prop:
  assumes "solve_sorry_db env st sorry_db = (err, st')"
  shows "(\<forall>s. parentType s \<noteq> ''Prop'' \<longrightarrow>
            s \<notin> set (attempted st') \<and> s \<notin> set (generated st') \<and>
            (uuid s \<notin> uuid ` set (prop_sorries sorry_db) \<longrightarrow>
               map_of (llm_proofs st') (uuid s) = None \<and>
               (out_json st' = out_json st \<or>
                (\<exists>m. out_json st' = Some m \<and> map_of m (uuid s) = None)))) \<and>
         set (attempted st') \<subseteq> set (prop_sorries sorry_db) \<and>
         set (generated st') \<subseteq> set (prop_sorries sorry_db)"
proof -
  let ?U = "set (prop_sorries sorry_db)"
  from solve_sorry_db_within [OF assms] have w: "run_within ?U (out_json st) st'" .
  have np: "\<And>s. parentType s \<noteq> ''Prop'' \<Longrightarrow> s \<notin> ?U"
    by (simp add: prop_sorries_def is_prop_def)
  have key: "\<And>k m. k \<notin> uuid ` ?U \<Longrightarrow> fst ` set m \<subseteq> uuid ` ?U \<Longrightarrow> map_of m k = None"
    by (metis map_of_eq_None_iff subsetD)
  from w have a: "set (attempted st') \<subseteq> ?U" and g: "set (generated st') \<subseteq> ?U"
    and l: "fst ` set (llm_proofs st') \<subseteq> uuid ` ?U"
    and o: "out_json st' = out_json st \<or> (\<exists>m. out_json st' = Some m \<and> fst ` set m \<subseteq> uuid ` ?U)"
    by (simp_all add: run_within_def)
  show ?thesis
  proof (intro conjI allI impI)
    fix s :: sorry_config assume "parentType s \<noteq> ''Prop''"
    from np [OF this] a show "s \<notin> set (attempted st')" by blast
    from np [OF \<open>parentType s \<noteq> ''Prop''\<close>] g show "s \<notin> set (generated st')" by blast
  next
    fix s :: sorry_config assume "uuid s \<notin> uuid ` ?U"
    with key l show "map_of (llm_proofs st') (uuid s) = None" by blast
    from o \<open>uuid s \<notin> uuid ` ?U\<close> key
    show "out_json st' = out_json st \<or> (\<exists>m. out_json st' = Some m \<and> map_of m (uuid s) = None)"
      by blast
  next
    show "set (attempted st') \<subseteq> ?U" by (rule a)
    show "set (generated st') \<subseteq> ?U" by (rule g)
  qed
qed

theorem solve_sorry_db_only_prop_witness:
  "parentType entry_data \<noteq> ''Prop'' \<and>
   uuid entry_data \<notin> uuid ` set (prop_sorries [example_repo]) \<and>
   entry_data \<notin> set (attempted (snd (solve_sorry_db example_env (new_client 0) [example_repo]))) \<and>
   entry_data \<notin> set (generated (snd (solve_sorry_db example_env (new_client 0) [example_repo]))) \<and>
   map_of (llm_proofs (snd (solve_sorry_db example_env (new_client 0) [example_repo])))
     (uuid entry_data) = None"
proof -
  let ?run = "solve_sorry_db example_env (new_client 0) [example_repo]"
  have h: "?run = (fst ?run, snd ?run)" by simp
  have p: "parentType entry_data \<noteq> ''Prop''" by (simp add: entry_data_def)
  have u: "uuid entry_data \<notin> uuid ` set (prop_sorries [example_repo])"
    by (simp add: prop_sorries_def all_sorries_def is_prop_def example_defs)
  from solve_sorry_db_only_prop [OF h] p u show ?thesis by blast
qed

end
